theory Spec2Isabelle
  imports Complex_Main
begin

section \<open>Numeric helpers of GenerativeBrainModel/custom_functions/utils.py\<close>

text \<open>
  The module works on torch tensors of floating-point numbers. Tensor entries are
  modelled as real numbers, and the theorems below carry the hypotheses that keep a
  computation away from the IEEE values inf and nan (a logarithm of a non-positive
  number, a division by zero, the mean of an empty tensor). Rounding is part of the
  model where a result hinges on it: the sum \<open>1 + |x|\<close>, the logarithm and the
  exponential in \<open>symlog\<close> and \<open>symexp\<close>, the product \<open>d * p\<close> that \<open>int\<close> truncates in
  \<open>RMSNorm\<close>, the logarithm under the ceiling in \<open>least_power_of_2\<close>, and the logarithm
  that selects the bin in \<open>twohot_exp_loss\<close>. A 1-D tensor is a list of reals, a 2-D
  tensor a list of rows. Everything that raises in Python is a value \<open>Inl e\<close>.
\<close>

datatype error = ZeroDivisionError | IndexError | RuntimeError | ValueError

type_synonym vec = "real list"
type_synonym tensor = "real list list"

definition then_do :: "error + 'a \<Rightarrow> ('a \<Rightarrow> error + 'b) \<Rightarrow> error + 'b" where
  "then_do r f = (case r of Inl e \<Rightarrow> Inl e | Inr v \<Rightarrow> f v)"

fun map_err :: "('a \<Rightarrow> error + 'b) \<Rightarrow> 'a list \<Rightarrow> error + 'b list" where
  "map_err f [] = Inr []"
| "map_err f (x # xs) =
     then_do (f x) (\<lambda>y. then_do (map_err f xs) (\<lambda>ys. Inr (y # ys)))"

subsection \<open>Tensor primitives\<close>

text \<open>\<open>torch.zeros_like\<close> on a 2-D tensor.\<close>

definition zeros_like :: "tensor \<Rightarrow> tensor" where
  "zeros_like t = map (\<lambda>row. replicate (length row) 0) t"

text \<open>
  \<open>t.scatter_(1, index, src)\<close> with \<open>index\<close> and \<open>src\<close> of shape (B, 1), given by
  their single columns: row \<open>b\<close> of \<open>t\<close> gets \<open>src[b]\<close> at column \<open>index[b]\<close>. The value
  is written, not added. torch raises when \<open>index\<close> has more rows than \<open>t\<close> or than
  \<open>src\<close>, and when an index is not in \<open>0 .. row length - 1\<close> (negative indices are
  not wrapped here).
\<close>

fun scatter_1 :: "tensor \<Rightarrow> int list \<Rightarrow> real list \<Rightarrow> error + tensor" where
  "scatter_1 t [] src = Inr t"
| "scatter_1 [] (i # idx) src = Inl RuntimeError"
| "scatter_1 (row # t) (i # idx) [] = Inl RuntimeError"
| "scatter_1 (row # t) (i # idx) (v # src) =
     (if 0 \<le> i \<and> i < int (length row)
      then then_do (scatter_1 t idx src) (\<lambda>t'. Inr (row[nat i := v] # t'))
      else Inl RuntimeError)"

text \<open>
  Indexing a 1-D tensor with an integer, \<open>xs[i]\<close>: a negative index counts from the
  end, an index out of range raises IndexError.
\<close>

definition index_get :: "vec \<Rightarrow> int \<Rightarrow> error + real" where
  "index_get xs i =
     (let n = int (length xs); j = (if i < 0 then i + n else i)
      in if 0 \<le> j \<and> j < n then Inr (xs ! nat j) else Inl IndexError)"

text \<open>
  An elementwise binary operation on two 1-D tensors with torch's broadcasting: equal
  lengths, or one side of length 1; anything else raises.
\<close>

definition broadcast2 :: "(real \<Rightarrow> real \<Rightarrow> real) \<Rightarrow> vec \<Rightarrow> vec \<Rightarrow> error + vec" where
  "broadcast2 f a b =
     (if length a = length b then Inr (map2 f a b)
      else if length a = 1 then Inr (map (f (hd a)) b)
      else if length b = 1 then Inr (map (\<lambda>x. f x (hd b)) a)
      else Inl RuntimeError)"

text \<open>\<open>t.mean()\<close> over all entries.\<close>

definition mean :: "vec \<Rightarrow> real" where
  "mean t = sum_list t / real (length t)"

text \<open>\<open>torch.linspace(start, end, steps)\<close>.\<close>

definition linspace :: "real \<Rightarrow> real \<Rightarrow> nat \<Rightarrow> vec" where
  "linspace start stop steps =
     (if steps = 1 then [start]
      else map (\<lambda>i. start + real i * ((stop - start) / real (steps - 1))) [0..<steps])"

text \<open>\<open>torch.clamp(x, lo, hi)\<close> on an integer: when \<open>lo > hi\<close> the result is \<open>hi\<close>.\<close>

definition clamp :: "int \<Rightarrow> int \<Rightarrow> int \<Rightarrow> int" where
  "clamp x lo hi = min (max x lo) hi"

text \<open>\<open>F.softmax\<close> and \<open>F.log_softmax\<close> along a row.\<close>

definition softmax :: "vec \<Rightarrow> vec" where
  "softmax z = map (\<lambda>a. exp a / sum_list (map exp z)) z"

definition log_softmax :: "vec \<Rightarrow> vec" where
  "log_softmax z = map (\<lambda>a. a - ln (sum_list (map exp z))) z"

text \<open>\<open>x.norm(2, dim=-1)\<close> of a 1-D tensor.\<close>

definition norm2 :: "vec \<Rightarrow> real" where
  "norm2 x = sqrt (sum_list (map (\<lambda>a. a\<^sup>2) x))"

subsection \<open>Floating-point rounding\<close>

text \<open>
  \<open>round_half_even m\<close> is the integer nearest to \<open>m\<close>, the even one of the two when \<open>m\<close>
  lies halfway. \<open>round_to prec emin x\<close> is \<open>x\<close> rounded to the nearest binary
  floating-point number with \<open>prec\<close> significand bits (ties to even); below \<open>2^emin\<close>
  the spacing is that of the subnormal numbers. \<open>float_round prec emin emax\<close> also has
  the largest exponent \<open>emax\<close>: a result of magnitude \<open>2^(emax + 1)\<close> or more overflows
  to inf, which is the value \<open>None\<close> (\<open>None\<close> stands for any non-finite float). IEEE
  single precision, the default dtype of torch, is \<open>float_round 24 (-126) 127\<close>, double
  precision is \<open>float_round 53 (-1022) 1023\<close>; \<open>double_round\<close> rounds to a Python float
  where no overflow can occur.
\<close>

definition round_half_even :: "real \<Rightarrow> int" where
  "round_half_even m =
     (let f = \<lfloor>m\<rfloor>
      in if m - of_int f < 1 / 2 then f
         else if 1 / 2 < m - of_int f then f + 1
         else if even f then f else f + 1)"

definition round_to :: "nat \<Rightarrow> int \<Rightarrow> real \<Rightarrow> real" where
  "round_to prec emin x =
     (if x = 0 then 0
      else let e = max \<lfloor>log 2 \<bar>x\<bar>\<rfloor> emin;
               q = 2 powr of_int (e - (int prec - 1))
           in of_int (round_half_even (x / q)) * q)"

definition float_round :: "nat \<Rightarrow> int \<Rightarrow> int \<Rightarrow> real \<Rightarrow> real option" where
  "float_round prec emin emax x =
     (let r = round_to prec emin x
      in if 2 powr of_int (emax + 1) \<le> \<bar>r\<bar> then None else Some r)"

definition double_round :: "real \<Rightarrow> real" where
  "double_round x = round_to 53 (- 1022) x"

subsection \<open>STsampleMultiNom\<close>

text \<open>
  \<open>torch.multinomial(input, 1)\<close> is the one random step of the module. It raises
  unless every row of \<open>input\<close> is non-negative with a positive sum
  (\<open>multinomial_valid\<close>); otherwise it returns one column index per row, drawn with
  probability proportional to the row's weights, so only an index of positive weight
  can come out. \<open>multinomial_draw input x\<close> says that the column \<open>x\<close> is such a result;
  the forward pass takes the drawn column as an argument.
\<close>

definition multinomial_valid :: "tensor \<Rightarrow> bool" where
  "multinomial_valid input =
     list_all (\<lambda>row. list_all (\<lambda>w. 0 \<le> w) row \<and> 0 < sum_list row) input"

definition multinomial_draw :: "tensor \<Rightarrow> nat list \<Rightarrow> bool" where
  "multinomial_draw input x =
     list_all2 (\<lambda>row i. i < length row \<and> 0 < row ! i) input x"

record ctx =
  saved_tensors :: "tensor list"

definition STsampleMultiNom_forward ::
  "ctx \<Rightarrow> tensor \<Rightarrow> nat list \<Rightarrow> error + (ctx \<times> tensor)" where
  "STsampleMultiNom_forward c input x =
     (let c' = c\<lparr>saved_tensors := [input]\<rparr>
      in if \<not> multinomial_valid input then Inl RuntimeError
         else then_do (scatter_1 (zeros_like input) (map int x) (replicate (length x) 1))
                (\<lambda>one_hot. Inr (c', one_hot)))"

text \<open>
  \<open>backward\<close> unpacks the one saved tensor (Python raises ValueError when the tuple
  does not hold exactly one) and returns the pair \<open>(grad_output, None)\<close>.
\<close>

definition STsampleMultiNom_backward ::
  "ctx \<Rightarrow> tensor \<Rightarrow> error + (tensor \<times> tensor option)" where
  "STsampleMultiNom_backward c grad_output =
     (case saved_tensors c of
        [input] \<Rightarrow> Inr (grad_output, None)
      | _ \<Rightarrow> Inl ValueError)"

subsection \<open>symlog, symexp\<close>

text \<open>
  On one entry \<open>x\<close> of the tensor. \<open>torch.sign\<close> and \<open>torch.abs\<close> are exact. The sum
  \<open>1 + |x|\<close>, the logarithm, the exponential and the difference \<open>exp |x| - 1\<close> are each
  rounded to the dtype of the tensor by \<open>rnd\<close>, which returns \<open>None\<close> for a non-finite
  result; a non-finite intermediate value stays non-finite through the operations that
  follow. The product with the sign (-1, 0 or 1) of a finite number is exact. With
  \<open>rnd = Some\<close> nothing is rounded.
\<close>

definition symlog :: "(real \<Rightarrow> real option) \<Rightarrow> real \<Rightarrow> real option" where
  "symlog rnd x =
     (case rnd (1 + \<bar>x\<bar>) of
        None \<Rightarrow> None
      | Some s \<Rightarrow> (case rnd (ln s) of
                     None \<Rightarrow> None
                   | Some l \<Rightarrow> Some (sgn x * l)))"

definition symexp :: "(real \<Rightarrow> real option) \<Rightarrow> real \<Rightarrow> real option" where
  "symexp rnd x =
     (case rnd (exp \<bar>x\<bar>) of
        None \<Rightarrow> None
      | Some e \<Rightarrow> (case rnd (e - 1) of
                     None \<Rightarrow> None
                   | Some m \<Rightarrow> Some (sgn x * m)))"

subsection \<open>kl_divergence_with_free_bits\<close>

text \<open>
  The tensors enter through the list of their entries (the computation is elementwise
  and the mean runs over all entries). \<open>batch_size\<close> and \<open>free_bits\<close> are parameters
  the body never reads.
\<close>

definition kl_divergence_with_free_bits ::
  "vec \<Rightarrow> vec \<Rightarrow> int \<Rightarrow> real \<Rightarrow> error + real" where
  "kl_divergence_with_free_bits q_probs p_probs batch_size free_bits =
     then_do (broadcast2 (-) (map ln q_probs) (map ln p_probs))
       (\<lambda>diff. then_do (broadcast2 (*) q_probs diff)
          (\<lambda>kld. Inr (mean kld)))"

subsection \<open>RMSNorm\<close>

record RMSNorm =
  eps :: real
  d :: nat
  p :: real
  bias :: bool
  scale :: vec
  offset :: vec

text \<open>The constructor; \<open>offset\<close> is only read when \<open>bias\<close> is set.\<close>

definition RMSNorm_init :: "nat \<Rightarrow> real \<Rightarrow> real \<Rightarrow> bool \<Rightarrow> RMSNorm" where
  "RMSNorm_init d0 p0 eps0 bias0 =
     \<lparr>eps = eps0, d = d0, p = p0, bias = bias0,
      scale = replicate d0 1, offset = replicate d0 0\<rparr>"

text \<open>Python's \<open>int(r)\<close> on a float: truncation toward zero.\<close>

definition py_int :: "real \<Rightarrow> int" where
  "py_int r = (if 0 \<le> r then \<lfloor>r\<rfloor> else \<lceil>r\<rceil>)"

text \<open>
  \<open>torch.split(x, [a, b], dim=-1)\<close> on a 1-D tensor: the sizes must be non-negative and
  add up to the length of \<open>x\<close>.
\<close>

definition split2 :: "vec \<Rightarrow> int \<Rightarrow> int \<Rightarrow> error + (vec \<times> vec)" where
  "split2 x a b =
     (if 0 \<le> a \<and> 0 \<le> b \<and> a + b = int (length x)
      then Inr (take (nat a) x, drop (nat a) x)
      else Inl RuntimeError)"

text \<open>
  \<open>d_x ** (-1. / 2)\<close> on a Python int \<open>d_x \<ge> 0\<close>: Python's float power raises
  ZeroDivisionError for base 0 and a negative exponent.
\<close>

definition pow_neg_half :: "int \<Rightarrow> error + real" where
  "pow_neg_half d_x =
     (if d_x = 0 then Inl ZeroDivisionError else Inr (real_of_int d_x powr (- 1 / 2)))"

text \<open>
  \<open>forward\<close> on a 1-D input (a single vector of the last dimension; leading
  dimensions are normalised row by row in the same way). In \<open>int(self.d * self.p)\<close>
  the int \<open>d\<close> is converted to a double, the product is rounded to a double, and \<open>int\<close>
  truncates the rounded product.
\<close>

definition RMSNorm_forward :: "RMSNorm \<Rightarrow> vec \<Rightarrow> error + vec" where
  "RMSNorm_forward self x =
     then_do
       (if p self < 0 \<or> p self > 1 then Inr (norm2 x, int (d self))
        else
          let partial_size = py_int (double_round (double_round (real (d self)) * p self))
          in then_do (split2 x partial_size (int (d self) - partial_size))
               (\<lambda>(partial_x, rest). Inr (norm2 partial_x, partial_size)))
       (\<lambda>(norm_x, d_x).
          then_do (pow_neg_half d_x)
            (\<lambda>c.
               let rms_x = norm_x * c;
                   x_normed = map (\<lambda>a. a / (rms_x + eps self)) x
               in if bias self
                  then then_do (broadcast2 (*) (scale self) x_normed)
                         (\<lambda>y. broadcast2 (+) y (offset self))
                  else broadcast2 (*) (scale self) x_normed))"

subsection \<open>Two-hot loss over exponentially spaced bins\<close>

text \<open>\<open>predicted_logits\<close> comes as a 1-D or a 2-D tensor; a 1-D one is unsqueezed.\<close>

datatype logits = Logits1 vec | Logits2 tensor

definition ensure_2d :: "logits \<Rightarrow> tensor" where
  "ensure_2d l = (case l of Logits1 v \<Rightarrow> [v] | Logits2 t \<Rightarrow> t)"

definition exp_bins :: "nat \<Rightarrow> real \<Rightarrow> real \<Rightarrow> vec" where
  "exp_bins num_bins min_exp max_exp =
     map (\<lambda>e. 2 powr e) (linspace min_exp max_exp num_bins)"

definition logits_to_value :: "logits \<Rightarrow> nat \<Rightarrow> real \<Rightarrow> real \<Rightarrow> error + vec" where
  "logits_to_value predicted_logits num_bins min_exp max_exp =
     (let bins = exp_bins num_bins min_exp max_exp
      in map_err (\<lambda>row. then_do (broadcast2 (*) (softmax row) bins)
                          (\<lambda>weighted. Inr (sum_list weighted)))
           (ensure_2d predicted_logits))"

text \<open>
  The encoding steps of \<open>twohot_exp_loss\<close> for one target value: the bin index \<open>k\<close>
  (the number of exponents below \<open>log2 v\<close>, clamped) and the two weights. The bin index
  is decided by comparing the exponents with the floating-point result of
  \<open>torch.log2\<close>, which need not be the exact logarithm; the function \<open>log2_of\<close>
  is a parameter of the model (\<open>log 2\<close> is the logarithm without rounding).
\<close>

definition twohot_k :: "(real \<Rightarrow> real) \<Rightarrow> real \<Rightarrow> nat \<Rightarrow> real \<Rightarrow> real \<Rightarrow> int" where
  "twohot_k log2_of v num_bins min_exp max_exp =
     clamp (int (length (filter (\<lambda>e. e < log2_of v) (linspace min_exp max_exp num_bins))))
       0 (int num_bins - 2)"

definition weight_upper :: "real \<Rightarrow> real \<Rightarrow> real \<Rightarrow> real" where
  "weight_upper v lower_bin upper_bin = (v - lower_bin) / (upper_bin - lower_bin)"

definition weight_lower :: "real \<Rightarrow> real \<Rightarrow> real \<Rightarrow> real" where
  "weight_lower v lower_bin upper_bin = 1 - weight_upper v lower_bin upper_bin"

text \<open>
  The two-hot target tensor built by \<open>twohot_exp_loss\<close> (\<open>true_values\<close> of shape (B,),
  \<open>predicted_logits\<close> already 2-D), in the order of the source: \<open>bins[k]\<close>,
  \<open>bins[k + 1]\<close>, the weights, the zero tensor, the two scatters.
\<close>

definition twohot ::
  "(real \<Rightarrow> real) \<Rightarrow> tensor \<Rightarrow> vec \<Rightarrow> nat \<Rightarrow> real \<Rightarrow> real \<Rightarrow> error + tensor" where
  "twohot log2_of predicted_logits true_values num_bins min_exp max_exp =
     (let bins = exp_bins num_bins min_exp max_exp;
          k = map (\<lambda>v. twohot_k log2_of v num_bins min_exp max_exp) true_values
      in then_do (map_err (index_get bins) k)
           (\<lambda>lower_bin.
              then_do (map_err (\<lambda>i. index_get bins (i + 1)) k)
                (\<lambda>upper_bin.
                   let w_upper = map (\<lambda>(v, lo, up). weight_upper v lo up)
                                   (zip true_values (zip lower_bin upper_bin));
                       w_lower = map (\<lambda>(v, lo, up). weight_lower v lo up)
                                   (zip true_values (zip lower_bin upper_bin))
                   in then_do (scatter_1 (zeros_like predicted_logits) k w_lower)
                        (\<lambda>t. scatter_1 t (map (\<lambda>i. i + 1) k) w_upper))))"

text \<open>
  \<open>F.cross_entropy(logits, target, reduction='mean')\<close> with class-probability
  targets: the mean over the rows of \<open>- sum (target * log_softmax logits)\<close>.
\<close>

definition cross_entropy :: "tensor \<Rightarrow> tensor \<Rightarrow> real" where
  "cross_entropy inp target =
     mean (map (\<lambda>(row, tgt). - sum_list (map2 (*) tgt (log_softmax row))) (zip inp target))"

definition twohot_exp_loss ::
  "(real \<Rightarrow> real) \<Rightarrow> logits \<Rightarrow> vec \<Rightarrow> nat \<Rightarrow> real \<Rightarrow> real \<Rightarrow> error + (real \<times> vec)" where
  "twohot_exp_loss log2_of predicted_logits true_values num_bins min_exp max_exp =
     (let logits2 = ensure_2d predicted_logits
      in then_do (twohot log2_of logits2 true_values num_bins min_exp max_exp)
           (\<lambda>target.
              let loss = cross_entropy logits2 target
              in then_do (logits_to_value (Logits2 logits2) num_bins min_exp max_exp)
                   (\<lambda>predicted_values. Inr (loss, predicted_values))))"

subsection \<open>least_power_of_2\<close>

text \<open>
  \<open>math.log(value, 2)\<close> is a double-precision computation (the quotient of two
  rounded logarithms); its result is not always the exact logarithm. The model takes
  the function \<open>math_log\<close> as a parameter: \<open>math_log value base\<close> is the number Python
  returns. \<open>exact_log\<close> is the logarithm without rounding.
\<close>

definition least_power_of_2 :: "(real \<Rightarrow> real \<Rightarrow> real) \<Rightarrow> real \<Rightarrow> real" where
  "least_power_of_2 math_log v =
     (if v \<le> 0 then 1
      else let exponent = \<lceil>math_log v 2\<rceil> in 2 powr real_of_int exponent)"

definition exact_log :: "real \<Rightarrow> real \<Rightarrow> real" where
  "exact_log v b = log b v"

section \<open>Properties\<close>

lemma then_do_Inr [simp]: "then_do (Inr v) f = f v"
  by (simp add: then_do_def)

lemma then_do_Inl [simp]: "then_do (Inl e) f = Inl e"
  by (simp add: then_do_def)

lemma broadcast2_same: "length a = length b \<Longrightarrow> broadcast2 f a b = Inr (map2 f a b)"
  by (simp add: broadcast2_def)

lemma map2_nth_eq:
  "length a = n \<Longrightarrow> length b = n \<Longrightarrow> map2 f a b = map (\<lambda>i. f (a ! i) (b ! i)) [0..<n]"
  by (rule nth_equalityI) simp_all

lemma sum_list_map_upt: "sum_list (map f [0..<n]) = (\<Sum>i<n. f i)"
  by (simp add: sum_list_sum_nth atLeast0LessThan)

lemma sqrt4: "sqrt 4 = 2"
  using real_sqrt_abs [of 2] by simp

lemma sqrt9: "sqrt 9 = 3"
  using real_sqrt_abs [of 3] by simp

subsection \<open>Floating-point rounding\<close>

lemma round_half_even_of_int [simp]: "round_half_even (of_int z) = z"
  by (simp add: round_half_even_def)

lemma round_half_even_ge_floor: "\<lfloor>m\<rfloor> \<le> round_half_even m"
  by (simp add: round_half_even_def Let_def)

lemma round_half_even_below_half:
  "of_int z \<le> m \<Longrightarrow> m < of_int z + 1 / 2 \<Longrightarrow> round_half_even m = z"
proof -
  assume a: "of_int z \<le> m" "m < of_int z + 1 / 2"
  then have "\<lfloor>m\<rfloor> = z" by (intro floor_unique) simp_all
  with a show ?thesis by (simp add: round_half_even_def)
qed

lemma round_half_even_tie_odd:
  "m = of_int z + 1 / 2 \<Longrightarrow> odd z \<Longrightarrow> round_half_even m = z + 1"
proof -
  assume a: "m = of_int z + 1 / 2" "odd z"
  then have "\<lfloor>m\<rfloor> = z" by (intro floor_unique) simp_all
  with a show ?thesis by (simp add: round_half_even_def)
qed

lemma floor_log2_eqI:
  assumes "0 < x" "2 powr of_int n \<le> x" "x < 2 powr (of_int n + 1)"
  shows "\<lfloor>log 2 x\<rfloor> = n"
proof (rule floor_unique)
  show "of_int n \<le> log 2 x" using assms(1,2) by (subst le_log_iff) simp_all
  show "log 2 x < of_int n + 1" using assms(1,3) by (subst log_less_iff) simp_all
qed

lemma round_to_0 [simp]: "round_to prec emin 0 = 0"
  by (simp add: round_to_def)

lemma round_to_nonneg: "0 \<le> x \<Longrightarrow> 0 \<le> round_to prec emin x"
proof -
  assume x: "0 \<le> x"
  have "0 \<le> round_half_even (x / q)" if "0 < q" for q
  proof -
    have "0 \<le> x / q" using x that by simp
    then have "0 \<le> \<lfloor>x / q\<rfloor>" by simp
    then show ?thesis using round_half_even_ge_floor [of "x / q"] by linarith
  qed
  then show ?thesis by (simp add: round_to_def Let_def)
qed

text \<open>Rounding is never below a power of two that the argument has reached.\<close>

lemma round_to_ge_pow2:
  assumes pr: "1 \<le> prec" and en: "emin \<le> n" and x: "2 powr of_int n \<le> x"
  shows "2 powr of_int n \<le> round_to prec emin x"
proof -
  have xpos: "0 < x" using x by (rule less_le_trans [rotated]) simp
  define e where "e = \<lfloor>log 2 x\<rfloor>"
  define q :: real where "q = 2 powr of_int (e - (int prec - 1))"
  have "of_int n \<le> log 2 x" using xpos x by (subst le_log_iff) simp_all
  then have ne: "n \<le> e" unfolding e_def by (simp add: le_floor_iff)
  have "of_int e \<le> log 2 x" unfolding e_def by simp
  then have ex: "2 powr of_int e \<le> x" using xpos by (subst (asm) le_log_iff) simp_all
  have qpos: "0 < q" by (simp add: q_def)
  have pq: "2 powr of_int e = 2 ^ (prec - 1) * q"
  proof -
    have "(2::real) ^ (prec - 1) = 2 powr real (prec - 1)" by (simp add: powr_realpow)
    also have "real (prec - 1) = of_int (int prec - 1)" using pr by simp
    finally have "2 ^ (prec - 1) * q = 2 powr (of_int (int prec - 1) + of_int (e - (int prec - 1)))"
      unfolding q_def by (simp only: powr_add)
    then show ?thesis by simp
  qed
  have "of_int (2 ^ (prec - 1)) \<le> x / q"
    using ex qpos by (simp add: pq pos_le_divide_eq)
  then have "2 ^ (prec - 1) \<le> \<lfloor>x / q\<rfloor>" by (simp add: le_floor_iff)
  then have "(2::int) ^ (prec - 1) \<le> round_half_even (x / q)"
    using round_half_even_ge_floor [of "x / q"] by linarith
  then have "(2::real) ^ (prec - 1) \<le> of_int (round_half_even (x / q))"
    by (metis of_int_le_iff of_int_numeral of_int_power)
  then have "2 ^ (prec - 1) * q \<le> of_int (round_half_even (x / q)) * q"
    using qpos by simp
  then have "2 powr of_int e \<le> of_int (round_half_even (x / q)) * q" by (simp only: pq)
  moreover have "2 powr of_int n \<le> (2::real) powr of_int e" using ne by simp
  moreover have "round_to prec emin x = of_int (round_half_even (x / q)) * q"
  proof -
    have ax: "\<bar>x\<bar> = x" and nz: "x \<noteq> 0" using xpos by simp_all
    have m: "max e emin = e" using ne en by simp
    show ?thesis
      by (simp only: round_to_def Let_def ax e_def [symmetric] m q_def [symmetric] nz if_False)
  qed
  ultimately show ?thesis by linarith
qed

lemma round_to_ge_1: "1 \<le> prec \<Longrightarrow> emin \<le> 0 \<Longrightarrow> 1 \<le> x \<Longrightarrow> 1 \<le> round_to prec emin x"
  using round_to_ge_pow2 [of prec emin 0 x] by simp

text \<open>The steps of one rounding, for the evaluation at a given number.\<close>

lemma round_to_eval:
  assumes "x \<noteq> 0" "\<lfloor>log 2 \<bar>x\<bar>\<rfloor> = e" "max e emin - (int prec - 1) = s"
    and "round_half_even (x / 2 powr of_int s) = r"
  shows "round_to prec emin x = of_int r * 2 powr of_int s"
  using assms(1) unfolding round_to_def Let_def assms(2) assms(3) assms(4) by simp

text \<open>A power of two in the exponent range is a floating-point number.\<close>

lemma round_to_pow2:
  assumes pr: "1 \<le> prec" and en: "emin \<le> n"
  shows "round_to prec emin (2 powr of_int n) = 2 powr of_int n"
proof -
  let ?x = "(2::real) powr of_int n"
  have fl: "\<lfloor>log 2 \<bar>?x\<bar>\<rfloor> = n" by simp
  have m: "max n emin - (int prec - 1) = n - (int prec - 1)" using en by simp
  have "?x / 2 powr of_int (n - (int prec - 1)) = 2 powr (of_int n - of_int (n - (int prec - 1)))"
    by (simp only: powr_diff)
  also have "of_int n - of_int (n - (int prec - 1)) = real (prec - 1)" using pr by simp
  also have "2 powr real (prec - 1) = of_int (2 ^ (prec - 1))" by (simp add: powr_realpow)
  finally have r: "round_half_even (?x / 2 powr of_int (n - (int prec - 1))) = 2 ^ (prec - 1)"
    by (simp only: round_half_even_of_int)
  have "round_to prec emin ?x = of_int (2 ^ (prec - 1)) * 2 powr of_int (n - (int prec - 1))"
    by (rule round_to_eval [OF _ fl m r]) simp
  also have "of_int (2 ^ (prec - 1)) = 2 powr real (prec - 1)" by (simp add: powr_realpow)
  also have "2 powr real (prec - 1) * 2 powr of_int (n - (int prec - 1))
       = 2 powr (real (prec - 1) + of_int (n - (int prec - 1)))"
    by (simp only: powr_add)
  also have "real (prec - 1) + of_int (n - (int prec - 1)) = of_int n" using pr by simp
  finally show ?thesis .
qed

lemma round_to_1: "1 \<le> prec \<Longrightarrow> emin \<le> 0 \<Longrightarrow> round_to prec emin 1 = 1"
  using round_to_pow2 [of prec emin 0] by simp

lemma float_round_0 [simp]: "float_round prec emin emax 0 = Some 0"
  by (simp add: float_round_def)

lemma float_round_1:
  "1 \<le> prec \<Longrightarrow> emin \<le> 0 \<Longrightarrow> 0 \<le> emax \<Longrightarrow> float_round prec emin emax 1 = Some 1"
proof -
  assume a: "1 \<le> prec" "emin \<le> 0" "0 \<le> emax"
  have "(2::real) powr 0 < 2 powr of_int (emax + 1)"
    by (rule powr_less_mono) (use a(3) in simp_all)
  then have "\<not> 2 powr of_int (emax + 1) \<le> (1::real)" by simp
  then have n: "\<not> 2 powr of_int (emax + 1) \<le> \<bar>1::real\<bar>" by simp
  show ?thesis
    unfolding float_round_def Let_def round_to_1 [OF a(1,2)] using n by (simp only: if_False)
qed

lemma float_round_nonneg: "0 \<le> x \<Longrightarrow> float_round prec emin emax x = Some r \<Longrightarrow> 0 \<le> r"
  using round_to_nonneg [of x prec emin]
  by (auto simp: float_round_def Let_def split: if_splits)

lemma float_round_ge_1:
  "1 \<le> prec \<Longrightarrow> emin \<le> 0 \<Longrightarrow> 1 \<le> x \<Longrightarrow> float_round prec emin emax x = Some r \<Longrightarrow> 1 \<le> r"
  using round_to_ge_1 [of prec emin x]
  by (auto simp: float_round_def Let_def split: if_splits)

lemma float_round_overflow:
  assumes "1 \<le> prec" "emin \<le> emax + 1" "2 powr of_int (emax + 1) \<le> x"
  shows "float_round prec emin emax x = None"
proof -
  have "2 powr of_int (emax + 1) \<le> round_to prec emin x"
    using assms by (rule round_to_ge_pow2)
  then have "2 powr of_int (emax + 1) \<le> \<bar>round_to prec emin x\<bar>" by linarith
  then show ?thesis by (simp add: float_round_def)
qed

lemma double_round_0 [simp]: "double_round 0 = 0"
  by (simp add: double_round_def)

lemma double_round_nonneg: "0 \<le> x \<Longrightarrow> 0 \<le> double_round x"
  unfolding double_round_def by (rule round_to_nonneg)

lemma double_round_pow2: "- 1022 \<le> n \<Longrightarrow> double_round (2 powr of_int n) = 2 powr of_int n"
  unfolding double_round_def by (rule round_to_pow2) simp_all

lemma double_round_1: "double_round 1 = 1"
  using double_round_pow2 [of 0] by simp

lemma double_round_2: "double_round 2 = 2"
  using double_round_pow2 [of 1] by simp

lemma double_round_4: "double_round 4 = 4"
  using double_round_pow2 [of 2] by simp

lemma double_round_half: "double_round (1 / 2) = 1 / 2"
  using double_round_pow2 [of "- 1"] by (simp add: powr_minus_divide)

lemma double_round_3: "double_round 3 = 3"
proof -
  have ax: "\<bar>3::real\<bar> = 3" by simp
  have fl: "\<lfloor>log 2 \<bar>3::real\<bar>\<rfloor> = 1" unfolding ax by (rule floor_log2_eqI) simp_all
  have m: "max 1 (- 1022) - (int 53 - 1) = - 51" by simp
  have pw: "(2::real) powr of_int (- 51) = 1 / 2 ^ 51" by (simp add: powr_minus_divide)
  have "(3::real) / 2 powr of_int (- 51) = of_int (3 * 2 ^ 51)" unfolding pw by simp
  then have r: "round_half_even (3 / 2 powr of_int (- 51)) = 3 * 2 ^ 51"
    by (simp only: round_half_even_of_int)
  have "round_to 53 (- 1022) 3 = of_int (3 * 2 ^ 51) * 2 powr of_int (- 51)"
    by (rule round_to_eval [OF _ fl m r]) simp
  then show ?thesis unfolding pw double_round_def by simp
qed

text \<open>
  The double nearest to 1/3 is \<open>6004799503160661 / 2^54\<close>. Three times it is
  \<open>1 - 2^-54\<close>, halfway between two doubles; the product rounds to 1.
\<close>

lemma double_round_3_thirds: "double_round (3 * (6004799503160661 / 2 ^ 54)) = 1"
proof -
  let ?x = "3 * (6004799503160661 / 2 ^ 54) :: real"
  have ax: "\<bar>?x\<bar> = ?x" by simp
  have fl: "\<lfloor>log 2 \<bar>?x\<bar>\<rfloor> = - 1"
    unfolding ax by (rule floor_log2_eqI) (simp_all add: powr_minus_divide)
  have m: "max (- 1) (- 1022) - (int 53 - 1) = - 53" by simp
  have pw: "(2::real) powr of_int (- 53) = 1 / 2 ^ 53" by (simp add: powr_minus_divide)
  have r: "round_half_even (?x / 2 powr of_int (- 53)) = (2 ^ 53 - 1) + 1"
    unfolding pw by (rule round_half_even_tie_odd) simp_all
  have "round_to 53 (- 1022) ?x = of_int ((2 ^ 53 - 1) + 1) * 2 powr of_int (- 53)"
    by (rule round_to_eval [OF _ fl m r]) simp
  then show ?thesis unfolding pw double_round_def by simp
qed

subsection \<open>STsampleMultiNom: the forward pass\<close>

lemma scatter_1_in_range:
  "list_all2 (\<lambda>row i. i < length row) t x \<Longrightarrow>
   scatter_1 t (map int x) (replicate (length x) v) = Inr (map2 (\<lambda>row i. row[i := v]) t x)"
  by (induction rule: list_all2_induct) simp_all

lemma positive_entry:
  fixes row :: "real list"
  assumes "list_all (\<lambda>w. 0 \<le> w) row" "0 < sum_list row"
  shows "\<exists>i<length row. 0 < row ! (i::nat)"
proof (rule ccontr)
  assume "\<not> ?thesis"
  then have "\<And>w. w \<in> set row \<Longrightarrow> w \<le> (0::real)"
    by (metis in_set_conv_nth not_less)
  then have "sum_list row \<le> 0" by (rule sum_list_nonpos)
  with assms(2) show False by simp
qed

text \<open>On a valid input \<open>torch.multinomial\<close> has something to return.\<close>

lemma multinomial_draw_exists: "multinomial_valid input \<Longrightarrow> \<exists>x. multinomial_draw input x"
proof (induction input)
  case Nil
  then show ?case by (simp add: multinomial_draw_def)
next
  case (Cons row input)
  then have v: "multinomial_valid input" and r: "list_all (\<lambda>w. 0 \<le> w) row" "0 < sum_list row"
    by (simp_all add: multinomial_valid_def)
  from Cons.IH [OF v] obtain x where x: "multinomial_draw input x" by blast
  from positive_entry [OF r] obtain i where "i < length row" "0 < row ! i" by blast
  with x have "multinomial_draw (row # input) (i # x)" by (simp add: multinomial_draw_def)
  then show ?case by blast
qed

lemma STsampleMultiNom_forward_value:
  assumes v: "multinomial_valid input" and dr: "multinomial_draw input x"
  shows "STsampleMultiNom_forward c input x =
     Inr (c\<lparr>saved_tensors := [input]\<rparr>,
          map2 (\<lambda>row i. (replicate (length row) 0)[i := 1]) input x)"
proof -
  from dr have len: "length input = length x"
    by (simp add: multinomial_draw_def list_all2_lengthD)
  from dr have "list_all2 (\<lambda>row i. i < length row) (zeros_like input) x"
    by (simp add: multinomial_draw_def zeros_like_def list_all2_conv_all_nth)
  then have "scatter_1 (zeros_like input) (map int x) (replicate (length x) 1)
     = Inr (map2 (\<lambda>row i. row[i := 1]) (zeros_like input) x)"
    by (rule scatter_1_in_range)
  also have "map2 (\<lambda>row i. row[i := 1]) (zeros_like input) x
     = map2 (\<lambda>row i. (replicate (length row) 0)[i := 1]) input x"
    using len by (auto simp: zeros_like_def intro!: nth_equalityI)
  finally show ?thesis using v by (simp add: STsampleMultiNom_forward_def)
qed

lemma STsampleMultiNom_forward_rows:
  assumes v: "multinomial_valid input" and dr: "multinomial_draw input x"
  shows "\<exists>one_hot. STsampleMultiNom_forward c input x
               = Inr (c\<lparr>saved_tensors := [input]\<rparr>, one_hot)
           \<and> length one_hot = length input
           \<and> (\<forall>b<length input. length (one_hot ! b) = length (input ! b)
                 \<and> x ! b < length (input ! b)
                 \<and> one_hot ! b ! (x ! b) = 1
                 \<and> (\<forall>j<length (input ! b). j \<noteq> x ! b \<longrightarrow> one_hot ! b ! j = 0)
                 \<and> 0 < input ! b ! (x ! b))"
proof -
  let ?oh = "map2 (\<lambda>row i. (replicate (length row) 0)[i := 1::real]) input x"
  from dr have len: "length input = length x"
    by (simp add: multinomial_draw_def list_all2_lengthD)
  from dr have rng:
    "\<And>b. b < length input \<Longrightarrow> x ! b < length (input ! b) \<and> 0 < input ! b ! (x ! b)"
    by (simp add: multinomial_draw_def list_all2_conv_all_nth)
  have "length ?oh = length input" using len by simp
  moreover have "\<forall>b<length input. length (?oh ! b) = length (input ! b)
                 \<and> x ! b < length (input ! b)
                 \<and> ?oh ! b ! (x ! b) = 1
                 \<and> (\<forall>j<length (input ! b). j \<noteq> x ! b \<longrightarrow> ?oh ! b ! j = 0)
                 \<and> 0 < input ! b ! (x ! b)"
    using len rng by simp
  ultimately show ?thesis using STsampleMultiNom_forward_value [OF v dr] by blast
qed

text \<open>
  C8. On a valid probability input (every row non-negative with a positive sum) the
  sampler has a column to draw, and for every column \<open>x\<close> that \<open>torch.multinomial\<close> can
  return the forward pass succeeds with a tensor of the shape of the input: it has as
  many rows, row \<open>b\<close> has the length of input row \<open>b\<close>, holds 1 at the drawn index
  \<open>x ! b\<close> and 0 at every other index, and the input weight at the drawn index is
  strictly positive.
\<close>

theorem STsampleMultiNom_forward_one_hot:
  assumes "multinomial_valid input"
  shows "(\<exists>x. multinomial_draw input x) \<and>
     (\<forall>x. multinomial_draw input x \<longrightarrow>
        (\<exists>one_hot. STsampleMultiNom_forward c input x
               = Inr (c\<lparr>saved_tensors := [input]\<rparr>, one_hot)
           \<and> length one_hot = length input
           \<and> (\<forall>b<length input. length (one_hot ! b) = length (input ! b)
                 \<and> x ! b < length (input ! b)
                 \<and> one_hot ! b ! (x ! b) = 1
                 \<and> (\<forall>j<length (input ! b). j \<noteq> x ! b \<longrightarrow> one_hot ! b ! j = 0)
                 \<and> 0 < input ! b ! (x ! b))))"
proof (intro conjI allI impI)
  show "\<exists>x. multinomial_draw input x"
    using assms by (rule multinomial_draw_exists)
next
  fix x assume "multinomial_draw input x"
  with assms show "\<exists>one_hot. STsampleMultiNom_forward c input x
               = Inr (c\<lparr>saved_tensors := [input]\<rparr>, one_hot)
           \<and> length one_hot = length input
           \<and> (\<forall>b<length input. length (one_hot ! b) = length (input ! b)
                 \<and> x ! b < length (input ! b)
                 \<and> one_hot ! b ! (x ! b) = 1
                 \<and> (\<forall>j<length (input ! b). j \<noteq> x ! b \<longrightarrow> one_hot ! b ! j = 0)
                 \<and> 0 < input ! b ! (x ! b))"
    by (rule STsampleMultiNom_forward_rows)
qed

theorem STsampleMultiNom_forward_one_hot_witness:
  "multinomial_valid [[0, 1], [2, 0]] \<and> multinomial_draw [[0, 1], [2, 0]] [1, 0] \<and>
   (\<exists>one_hot. STsampleMultiNom_forward \<lparr>saved_tensors = []\<rparr> [[0, 1], [2, 0]] [1, 0]
        = Inr (\<lparr>saved_tensors = [[[0, 1], [2, 0]]]\<rparr>, one_hot)
      \<and> one_hot ! 0 ! 1 = 1 \<and> one_hot ! 0 ! 0 = 0 \<and> one_hot ! 1 ! 0 = 1 \<and> one_hot ! 1 ! 1 = 0)"
proof -
  let ?inp = "[[0, 1], [2, 0 :: real]]"
  let ?x = "[1, 0 :: nat]"
  have v: "multinomial_valid ?inp" by (simp add: multinomial_valid_def)
  have dr: "multinomial_draw ?inp ?x" by (simp add: multinomial_draw_def)
  note h = STsampleMultiNom_forward_one_hot
    [OF v, of "\<lparr>saved_tensors = []\<rparr>", THEN conjunct2, rule_format, OF dr]
  from h obtain one_hot where
    f: "STsampleMultiNom_forward \<lparr>saved_tensors = []\<rparr> ?inp ?x
          = Inr (\<lparr>saved_tensors = []\<rparr>\<lparr>saved_tensors := [?inp]\<rparr>, one_hot)"
    and r: "\<forall>b<length ?inp. length (one_hot ! b) = length (?inp ! b)
                 \<and> ?x ! b < length (?inp ! b)
                 \<and> one_hot ! b ! (?x ! b) = 1
                 \<and> (\<forall>j<length (?inp ! b). j \<noteq> ?x ! b \<longrightarrow> one_hot ! b ! j = 0)
                 \<and> 0 < ?inp ! b ! (?x ! b)"
    by (elim exE conjE)
  from r [rule_format, of 0] have r0: "one_hot ! 0 ! 1 = 1 \<and> one_hot ! 0 ! 0 = 0"
    by simp
  from r [rule_format, of 1] have r1: "one_hot ! 1 ! 0 = 1 \<and> one_hot ! 1 ! 1 = 0"
    by simp
  from v dr f r0 r1 show ?thesis by auto
qed

subsection \<open>kl_divergence_with_free_bits\<close>

text \<open>
  C4. For probability tensors \<open>q\<close> and \<open>p\<close> of one shape (non-empty, entries positive so
  that every logarithm is finite) the function returns the mean over all entries of
  \<open>q * (log q - log p)\<close>, and the result is the same for any other \<open>batch_size\<close> and
  \<open>free_bits\<close>: neither is read, nothing is clipped.
\<close>

theorem kl_divergence_unclipped_mean:
  assumes len: "length q = length pr" and ne: "q \<noteq> []"
    and qpos: "list_all (\<lambda>a. 0 < a) q" and ppos: "list_all (\<lambda>a. 0 < a) pr"
  shows "kl_divergence_with_free_bits q pr batch_size free_bits =
           Inr ((\<Sum>i<length q. q ! i * (ln (q ! i) - ln (pr ! i))) / real (length q)) \<and>
         kl_divergence_with_free_bits q pr batch_size' free_bits' =
           kl_divergence_with_free_bits q pr batch_size free_bits"
proof -
  let ?n = "length q"
  have df: "broadcast2 (-) (map ln q) (map ln pr)
              = Inr (map (\<lambda>i. ln (q ! i) - ln (pr ! i)) [0..<?n])"
    using len by (simp add: broadcast2_same map2_nth_eq [where n = ?n])
  have m: "broadcast2 (*) q (map (\<lambda>i. ln (q ! i) - ln (pr ! i)) [0..<?n])
             = Inr (map (\<lambda>i. q ! i * (ln (q ! i) - ln (pr ! i))) [0..<?n])"
    by (simp add: broadcast2_same map2_nth_eq [where n = ?n])
  have "kl_divergence_with_free_bits q pr batch_size free_bits =
           Inr ((\<Sum>i<length q. q ! i * (ln (q ! i) - ln (pr ! i))) / real (length q))"
    by (simp add: kl_divergence_with_free_bits_def df m mean_def sum_list_map_upt)
  moreover have "kl_divergence_with_free_bits q pr batch_size' free_bits' =
           kl_divergence_with_free_bits q pr batch_size free_bits"
    by (simp add: kl_divergence_with_free_bits_def)
  ultimately show ?thesis by simp
qed

theorem kl_divergence_unclipped_mean_witness:
  "kl_divergence_with_free_bits [1 / 2, 1 / 2] [1 / 2, 1 / 2] 2 1 = Inr 0 \<and>
   kl_divergence_with_free_bits [1 / 2, 1 / 2] [1 / 2, 1 / 2] 7 100 =
     kl_divergence_with_free_bits [1 / 2, 1 / 2] [1 / 2, 1 / 2] 2 1"
  using kl_divergence_unclipped_mean [of "[1 / 2, 1 / 2]" "[1 / 2, 1 / 2]" 2 1 7 100]
  by (simp add: lessThan_Suc)

subsection \<open>RMSNorm.forward\<close>

lemma powr_neg_half: "0 < r \<Longrightarrow> r powr (- 1 / 2) = 1 / sqrt r"
proof -
  assume r: "0 < r"
  have h: "r powr (1 / 2) = sqrt r" by (rule powr_half_sqrt) (use r in linarith)
  have "r powr (- 1 / 2) = r powr (- (1 / 2))" by (simp only: minus_divide_left)
  also have "\<dots> = inverse (r powr (1 / 2))" by (rule powr_minus)
  also have "\<dots> = 1 / sqrt r" unfolding h by (rule inverse_eq_divide)
  finally show ?thesis .
qed

lemma pow_neg_half_pos: "0 < k \<Longrightarrow> pow_neg_half (int k) = Inr (1 / sqrt (real k))"
  unfolding pow_neg_half_def using powr_neg_half [of "real k"] by simp

lemma partial_size_nonneg:
  assumes "0 \<le> pr"
  shows "0 \<le> py_int (double_round (double_round (real n) * pr))"
proof -
  have "0 \<le> double_round (real n)" by (rule double_round_nonneg) simp
  then have "0 \<le> double_round (real n) * pr" using assms by simp
  then have "0 \<le> double_round (double_round (real n) * pr)" by (rule double_round_nonneg)
  then show ?thesis by (simp add: py_int_def)
qed

text \<open>
  The first half of \<open>forward\<close>. The norm window has size \<open>k\<close>: the whole vector when
  \<open>p\<close> is outside [0, 1], the prefix of size \<open>int(d * p)\<close> otherwise. \<open>torch.split\<close>
  refuses a prefix longer than the vector, an empty window stops at
  \<open>0 ** (-1. / 2)\<close>, and otherwise the input is divided by \<open>norm / sqrt k + eps\<close>.
\<close>

lemma RMSNorm_forward_normed:
  assumes len: "length x = d self"
    and ps: "partial_size = py_int (double_round (double_round (real (d self)) * p self))"
    and k: "k = (if p self < 0 \<or> p self > 1 then d self else nat partial_size)"
  shows "RMSNorm_forward self x =
     (if \<not> (p self < 0 \<or> p self > 1) \<and> int (d self) < partial_size then Inl RuntimeError
      else if k = 0 then Inl ZeroDivisionError
      else let x_normed = map (\<lambda>a. a / (norm2 (take k x) * (1 / sqrt (real k)) + eps self)) x
           in if bias self
              then then_do (broadcast2 (*) (scale self) x_normed)
                     (\<lambda>y. broadcast2 (+) y (offset self))
              else broadcast2 (*) (scale self) x_normed)"
proof (cases "p self < 0 \<or> p self > 1")
  case True
  with k have kd: "k = d self" by simp
  show ?thesis
  proof (cases "k = 0")
    case k0: True
    then have "pow_neg_half (int (d self)) = Inl ZeroDivisionError"
      using kd by (simp add: pow_neg_half_def)
    with True k0 show ?thesis by (simp add: RMSNorm_forward_def)
  next
    case nz: False
    then have "pow_neg_half (int (d self)) = Inr (1 / sqrt (real (d self)))"
      using kd by (intro pow_neg_half_pos) simp
    with True nz show ?thesis by (simp add: RMSNorm_forward_def kd len Let_def)
  qed
next
  case False
  then have p0: "0 \<le> p self" by simp
  have ps0: "0 \<le> partial_size" unfolding ps using p0 by (rule partial_size_nonneg)
  from False k have kf: "k = nat partial_size" by simp
  with ps0 have ik: "int k = partial_size" by simp
  have pe: "py_int (double_round (double_round (real (d self)) * p self)) = int k"
    using ps ik by simp
  show ?thesis
  proof (cases "int (d self) < partial_size")
    case True
    then have "split2 x (int k) (int (d self) - int k) = Inl RuntimeError"
      by (simp add: split2_def ik)
    with False True show ?thesis by (simp add: RMSNorm_forward_def pe Let_def)
  next
    case le: False
    then have kd: "k \<le> d self" using ik by linarith
    have sp: "split2 x (int k) (int (d self) - int k) = Inr (take k x, drop k x)"
      using kd len by (simp add: split2_def)
    show ?thesis
    proof (cases "k = 0")
      case True
      have "pow_neg_half (int k) = Inl ZeroDivisionError"
        using True by (simp add: pow_neg_half_def)
      then have "RMSNorm_forward self x = Inl ZeroDivisionError"
        using False by (simp add: RMSNorm_forward_def pe sp Let_def)
      with False le True show ?thesis by simp
    next
      case nz: False
      then have ph: "pow_neg_half (int k) = Inr (1 / sqrt (real k))"
        by (intro pow_neg_half_pos) simp
      from False le nz show ?thesis by (simp add: RMSNorm_forward_def pe sp ph Let_def)
    qed
  qed
qed

lemma RMSNorm_forward_general:
  assumes len: "length x = d self"
    and ls: "length (scale self) = d self"
    and lo: "length (offset self) = d self"
    and ps: "partial_size = py_int (double_round (double_round (real (d self)) * p self))"
    and k: "k = (if p self < 0 \<or> p self > 1 then d self else nat partial_size)"
    and ok: "\<not> (\<not> (p self < 0 \<or> p self > 1) \<and> int (d self) < partial_size)"
    and pos: "0 < k"
    and rms: "rms = norm2 (take k x) / sqrt (real k)"
  shows "RMSNorm_forward self x =
     Inr (map (\<lambda>i. scale self ! i * (x ! i / (rms + eps self))
                    + (if bias self then offset self ! i else 0)) [0..<d self])"
proof -
  let ?xn = "map (\<lambda>a. a / (rms + eps self)) x"
  from pos have nz: "\<not> k = 0" by simp
  have "RMSNorm_forward self x =
     (let x_normed = map (\<lambda>a. a / (norm2 (take k x) * (1 / sqrt (real k)) + eps self)) x
      in if bias self
         then then_do (broadcast2 (*) (scale self) x_normed)
                (\<lambda>y. broadcast2 (+) y (offset self))
         else broadcast2 (*) (scale self) x_normed)"
    using RMSNorm_forward_normed [OF len ps k] by (simp only: if_not_P [OF ok] if_not_P [OF nz])
  then have st: "RMSNorm_forward self x =
     (if bias self
         then then_do (broadcast2 (*) (scale self) ?xn) (\<lambda>y. broadcast2 (+) y (offset self))
         else broadcast2 (*) (scale self) ?xn)"
    by (simp add: rms Let_def divide_inverse)
  have m: "broadcast2 (*) (scale self) ?xn =
      Inr (map (\<lambda>i. scale self ! i * (x ! i / (rms + eps self))) [0..<d self])"
    using len ls by (simp add: broadcast2_same map2_nth_eq [where n = "d self"])
  show ?thesis
  proof (cases "bias self")
    case False
    with st m show ?thesis by simp
  next
    case True
    have "broadcast2 (+)
            (map (\<lambda>i. scale self ! i * (x ! i / (rms + eps self))) [0..<d self]) (offset self)
       = Inr (map (\<lambda>i. scale self ! i * (x ! i / (rms + eps self)) + offset self ! i)
               [0..<d self])"
      using lo by (simp add: broadcast2_same map2_nth_eq [where n = "d self"])
    with True st m show ?thesis by simp
  qed
qed

text \<open>The configuration of the specification's example: d = 4, p disabled, eps = 0.\<close>

lemma RMSNorm_forward_default_4:
  assumes "length y = 4"
  shows "RMSNorm_forward (RMSNorm_init 4 (- 1) 0 False) y
           = Inr (map (\<lambda>a. a / (norm2 y / 2)) y)"
proof -
  let ?m = "RMSNorm_init 4 (- 1) 0 False"
  have "RMSNorm_forward ?m y =
     Inr (map (\<lambda>i. scale ?m ! i * (y ! i / (norm2 y / 2 + eps ?m))
                    + (if bias ?m then offset ?m ! i else 0)) [0..<d ?m])"
    by (rule RMSNorm_forward_general [where k = 4
          and partial_size = "py_int (double_round (double_round (real (d ?m)) * p ?m))"])
       (simp_all add: RMSNorm_init_def assms sqrt4)
  also have "\<dots> = Inr (map (\<lambda>a. a / (norm2 y / 2)) y)"
    using assms by (auto simp: RMSNorm_init_def intro!: nth_equalityI)
  finally show ?thesis .
qed

text \<open>
  The prefix size follows the rounded product, not the exact one: with d = 3 and \<open>p\<close>
  the double nearest to 1/3, the exact product \<open>d * p\<close> is below 1 and its floor is 0,
  but the double product is 1.0, the prefix has one entry, and [1, 2, 0] maps to
  [1, 2, 0].
\<close>

lemma RMSNorm_forward_rounded_product_example:
  "\<lfloor>3 * (6004799503160661 / 2 ^ 54) :: real\<rfloor> = 0 \<and>
   RMSNorm_forward (RMSNorm_init 3 (6004799503160661 / 2 ^ 54) 0 False) [1, 2, 0]
     = Inr [1, 2, 0]"
proof -
  let ?m = "RMSNorm_init 3 (6004799503160661 / 2 ^ 54) 0 False"
  have dm: "d ?m = 3" and pm: "p ?m = 6004799503160661 / 2 ^ 54"
    by (simp_all add: RMSNorm_init_def)
  have a1: "length [1, 2, 0 :: real] = d ?m" by (simp add: RMSNorm_init_def)
  have a2: "length (scale ?m) = d ?m" by (simp add: RMSNorm_init_def)
  have a3: "length (offset ?m) = d ?m" by (simp add: RMSNorm_init_def)
  have a4: "(1::int) = py_int (double_round (double_round (real (d ?m)) * p ?m))"
    unfolding dm pm of_nat_numeral double_round_3 double_round_3_thirds
    by (simp add: py_int_def)
  have a5: "(1::nat) = (if p ?m < 0 \<or> p ?m > 1 then d ?m else nat 1)"
    by (simp add: RMSNorm_init_def)
  have a6: "\<not> (\<not> (p ?m < 0 \<or> p ?m > 1) \<and> int (d ?m) < 1)" by (simp add: RMSNorm_init_def)
  have a7: "0 < (1::nat)" by simp
  have a8: "(1::real) = norm2 (take 1 [1, 2, 0]) / sqrt (real 1)" by (simp add: norm2_def)
  have "RMSNorm_forward ?m [1, 2, 0] =
     Inr (map (\<lambda>i. scale ?m ! i * ([1, 2, 0] ! i / (1 + eps ?m))
                    + (if bias ?m then offset ?m ! i else 0)) [0..<d ?m])"
    by (rule RMSNorm_forward_general [OF a1 a2 a3 a4 a5 a6 a7 a8])
  also have "\<dots> = Inr [1, 2, 0]"
    by (simp add: RMSNorm_init_def upt_rec numeral_eq_Suc)
  finally have r: "RMSNorm_forward ?m [1, 2, 0] = Inr [1, 2, 0]" .
  have "\<lfloor>3 * (6004799503160661 / 2 ^ 54) :: real\<rfloor> = 0" by (rule floor_unique) simp_all
  with r show ?thesis by simp
qed

text \<open>
  C5 as stated: for \<open>p\<close> in [0, 1] \<open>forward\<close> takes the norm of the prefix of size
  \<open>floor (d * p)\<close>, divides by the square root of that size, and returns the scaled,
  normalised input. With d = 4 and p = 1/8 the prefix size is \<open>int(0.5) = 0\<close>, and
  nothing is returned: \<open>0 ** (-1. / 2)\<close> raises ZeroDivisionError. The same happens
  for every \<open>p\<close> in [0, 1] with \<open>int(d * p) = 0\<close>.
\<close>

theorem RMSNorm_forward_small_p_example:
  "RMSNorm_forward (RMSNorm_init 4 (1 / 8) (1 / 10 ^ 8) False) [3, 0, 0, 0]
     = Inl ZeroDivisionError"
  by (simp add: RMSNorm_forward_def RMSNorm_init_def double_round_4 double_round_half
      py_int_def split2_def pow_neg_half_def)

text \<open>
  C5, amended. On an input of the layer's size, with scale and offset of that size:
  the norm window has size \<open>k = d\<close> when \<open>p\<close> is outside [0, 1], and otherwise it is the
  prefix of size \<open>k = int(d * p)\<close>, the truncation of the product as rounded to a
  double. When the prefix size exceeds \<open>d\<close>, \<open>torch.split\<close> raises. When \<open>k = 0\<close>,
  \<open>forward\<close> raises ZeroDivisionError. Otherwise, with a non-zero divisor, \<open>forward\<close>
  returns at each index \<open>scale * (x / (rms + eps))\<close>, plus the offset only when \<open>bias\<close>
  is set, where \<open>rms\<close> is the Euclidean norm of the window over \<open>sqrt k\<close>. With d = 4,
  p disabled, eps = 0, unit scale and no bias the output is the input divided by half
  its norm, and [3, 0, 0, 0] maps to [2, 0, 0, 0].
\<close>

theorem RMSNorm_forward_computes:
  assumes "length x = d self"
    and "length (scale self) = d self"
    and "length (offset self) = d self"
    and "partial_size = py_int (double_round (double_round (real (d self)) * p self))"
    and "k = (if p self < 0 \<or> p self > 1 then d self else nat partial_size)"
    and "rms = norm2 (take k x) / sqrt (real k)"
  shows "(\<not> (p self < 0 \<or> p self > 1) \<and> int (d self) < partial_size \<longrightarrow>
            RMSNorm_forward self x = Inl RuntimeError) \<and>
         (\<not> (\<not> (p self < 0 \<or> p self > 1) \<and> int (d self) < partial_size) \<and> k = 0 \<longrightarrow>
            RMSNorm_forward self x = Inl ZeroDivisionError) \<and>
         (\<not> (\<not> (p self < 0 \<or> p self > 1) \<and> int (d self) < partial_size) \<and> 0 < k
            \<and> rms + eps self \<noteq> 0 \<longrightarrow>
            RMSNorm_forward self x =
              Inr (map (\<lambda>i. scale self ! i * (x ! i / (rms + eps self))
                             + (if bias self then offset self ! i else 0)) [0..<d self])) \<and>
         (\<forall>y. length y = 4 \<and> norm2 y \<noteq> 0 \<longrightarrow>
            RMSNorm_forward (RMSNorm_init 4 (- 1) 0 False) y
              = Inr (map (\<lambda>a. a / (norm2 y / 2)) y)) \<and>
         RMSNorm_forward (RMSNorm_init 4 (- 1) 0 False) [3, 0, 0, 0] = Inr [2, 0, 0, 0]"
proof (intro conjI impI allI)
  assume c: "\<not> (p self < 0 \<or> p self > 1) \<and> int (d self) < partial_size"
  show "RMSNorm_forward self x = Inl RuntimeError"
    using RMSNorm_forward_normed [OF assms(1,4,5)] by (simp only: if_P [OF c])
next
  assume "\<not> (\<not> (p self < 0 \<or> p self > 1) \<and> int (d self) < partial_size) \<and> k = 0"
  then have c: "\<not> (\<not> (p self < 0 \<or> p self > 1) \<and> int (d self) < partial_size)"
    and k0: "k = 0" by simp_all
  show "RMSNorm_forward self x = Inl ZeroDivisionError"
    using RMSNorm_forward_normed [OF assms(1,4,5)] by (simp only: if_not_P [OF c] if_P [OF k0])
next
  assume "\<not> (\<not> (p self < 0 \<or> p self > 1) \<and> int (d self) < partial_size) \<and> 0 < k
            \<and> rms + eps self \<noteq> 0"
  then have c: "\<not> (\<not> (p self < 0 \<or> p self > 1) \<and> int (d self) < partial_size)"
    and pos: "0 < k" by simp_all
  show "RMSNorm_forward self x =
              Inr (map (\<lambda>i. scale self ! i * (x ! i / (rms + eps self))
                             + (if bias self then offset self ! i else 0)) [0..<d self])"
    using assms(1-5) c pos assms(6) by (rule RMSNorm_forward_general)
next
  fix y :: "real list"
  assume "length y = 4 \<and> norm2 y \<noteq> 0"
  then have "length y = 4" by simp
  then show "RMSNorm_forward (RMSNorm_init 4 (- 1) 0 False) y
              = Inr (map (\<lambda>a. a / (norm2 y / 2)) y)"
    by (rule RMSNorm_forward_default_4)
next
  show "RMSNorm_forward (RMSNorm_init 4 (- 1) 0 False) [3, 0, 0, 0] = Inr [2, 0, 0, 0]"
    using RMSNorm_forward_default_4 [of "[3, 0, 0, 0]"] by (simp add: norm2_def sqrt9)
qed

theorem RMSNorm_forward_computes_witness:
  "RMSNorm_forward (RMSNorm_init 2 (1 / 2) 0 True) [3, 4] = Inr [1, 4 / 3]"
proof -
  let ?m = "RMSNorm_init 2 (1 / 2) 0 True"
  have a1: "length [3, 4 :: real] = d ?m" by (simp add: RMSNorm_init_def)
  have a2: "length (scale ?m) = d ?m" by (simp add: RMSNorm_init_def)
  have a3: "length (offset ?m) = d ?m" by (simp add: RMSNorm_init_def)
  have a4: "(1::int) = py_int (double_round (double_round (real (d ?m)) * p ?m))"
    by (simp add: RMSNorm_init_def double_round_2 double_round_1 py_int_def)
  have a5: "(1::nat) = (if p ?m < 0 \<or> p ?m > 1 then d ?m else nat 1)"
    by (simp add: RMSNorm_init_def)
  have a6: "(3::real) = norm2 (take 1 [3, 4]) / sqrt (real 1)" by (simp add: norm2_def)
  have c: "\<not> (\<not> (p ?m < 0 \<or> p ?m > 1) \<and> int (d ?m) < 1) \<and> 0 < (1::nat)
            \<and> 3 + eps ?m \<noteq> 0"
    by (simp add: RMSNorm_init_def)
  have "RMSNorm_forward ?m [3, 4] =
     Inr (map (\<lambda>i. scale ?m ! i * ([3, 4] ! i / (3 + eps ?m))
                    + (if bias ?m then offset ?m ! i else 0)) [0..<d ?m])"
    by (rule RMSNorm_forward_computes [OF a1 a2 a3 a4 a5 a6,
          THEN conjunct2, THEN conjunct2, THEN conjunct1, THEN mp, OF c])
  also have "\<dots> = Inr [1, 4 / 3]"
    by (simp add: RMSNorm_init_def upt_rec numeral_eq_Suc)
  finally show ?thesis .
qed

text \<open>
  C10 as stated: with p = 0 the forward output is NaN for every input. The code never
  gets to an output: \<open>0 ** (-1. / 2)\<close> on the Python int \<open>d_x = 0\<close> raises
  ZeroDivisionError before any tensor is divided.
\<close>

theorem RMSNorm_forward_p_zero_example:
  "RMSNorm_forward (RMSNorm_init 4 0 (1 / 10 ^ 8) False) [3, 0, 0, 0] = Inl ZeroDivisionError"
  by (simp add: RMSNorm_forward_def RMSNorm_init_def py_int_def split2_def pow_neg_half_def)

text \<open>
  C10, amended. With p = 0 the partial branch is taken with prefix size 0, and
  \<open>forward\<close> raises on every input: ZeroDivisionError from \<open>0 ** (-1. / 2)\<close> when the
  input has the layer's size \<open>d\<close>, and the RuntimeError of \<open>torch.split\<close> otherwise. No
  output is returned.
\<close>

theorem RMSNorm_forward_p_zero:
  assumes "p self = 0"
  shows "RMSNorm_forward self x =
           (if length x = d self then Inl ZeroDivisionError else Inl RuntimeError)"
  using assms
  by (simp add: RMSNorm_forward_def py_int_def split2_def pow_neg_half_def)

theorem RMSNorm_forward_p_zero_witness:
  "RMSNorm_forward (RMSNorm_init 2 0 0 True) [1, 2] = Inl ZeroDivisionError"
  using RMSNorm_forward_p_zero [of "RMSNorm_init 2 0 0 True" "[1, 2]"]
  by (simp add: RMSNorm_init_def)

subsection \<open>STsampleMultiNom: the backward pass\<close>

text \<open>
  C2. The backward pass of the straight-through sampler returns the incoming gradient
  unchanged as the gradient of the input: on the context that any successful forward
  pass leaves behind, \<open>backward\<close> applied to \<open>grad_output\<close> returns the pair
  \<open>(grad_output, None)\<close>, whatever the input and the gradient are.
\<close>

theorem backward_straight_through:
  "STsampleMultiNom_forward c input x = Inr (c', one_hot) \<Longrightarrow>
   STsampleMultiNom_backward c' grad_output = Inr (grad_output, None)"
  by (auto simp: STsampleMultiNom_forward_def STsampleMultiNom_backward_def Let_def then_do_def
      split: if_splits sum.splits)

theorem backward_straight_through_witness:
  "STsampleMultiNom_forward \<lparr>saved_tensors = []\<rparr> [[0, 1]] [1]
     = Inr (\<lparr>saved_tensors = [[[0, 1]]]\<rparr>, [[0, 1]]) \<and>
   STsampleMultiNom_backward \<lparr>saved_tensors = [[[0, 1]]]\<rparr> [[5, 7]] = Inr ([[5, 7]], None)"
proof -
  have f: "STsampleMultiNom_forward \<lparr>saved_tensors = []\<rparr> [[0, 1]] [1]
     = Inr (\<lparr>saved_tensors = [[[0, 1]]]\<rparr>, [[0, 1]])"
    by (simp add: STsampleMultiNom_forward_def multinomial_valid_def zeros_like_def)
  from f backward_straight_through [OF f, of "[[5, 7]]"] show ?thesis by simp
qed

subsection \<open>symlog and symexp\<close>

lemma symlog_rounded_zero:
  "1 \<le> prec \<Longrightarrow> emin \<le> 0 \<Longrightarrow> 0 \<le> emax \<Longrightarrow> symlog (float_round prec emin emax) 0 = Some 0"
  by (simp add: symlog_def float_round_1)

lemma symlog_rounded_sign:
  assumes "1 \<le> prec" "emin \<le> 0" and y: "symlog (float_round prec emin emax) x = Some y"
  shows "y = 0 \<or> sgn y = sgn x"
proof -
  from y obtain s l where s: "float_round prec emin emax (1 + \<bar>x\<bar>) = Some s"
    and l: "float_round prec emin emax (ln s) = Some l" and yl: "y = sgn x * l"
    by (auto simp: symlog_def split: option.splits)
  have "1 \<le> s" using assms(1,2) _ s by (rule float_round_ge_1) simp
  then have "0 \<le> ln s" by simp
  then have "0 \<le> l" using l by (rule float_round_nonneg)
  then show ?thesis unfolding yl by (cases "l = 0") (simp_all add: sgn_mult)
qed

lemma symlog_exact: "symlog Some x = Some (sgn x * ln (1 + \<bar>x\<bar>))"
  by (simp add: symlog_def)

lemma symexp_exact: "symexp Some x = Some (sgn x * (exp \<bar>x\<bar> - 1))"
  by (simp add: symexp_def)

lemma sgn_symlog_exact: "sgn (sgn x * ln (1 + \<bar>x\<bar>)) = sgn (x::real)"
proof (cases "x = 0")
  case True
  then show ?thesis by simp
next
  case False
  then have "0 < ln (1 + \<bar>x\<bar>)" by simp
  then show ?thesis by (simp add: sgn_mult)
qed

lemma sgn_symexp_exact: "sgn (sgn x * (exp \<bar>x\<bar> - 1)) = sgn (x::real)"
proof (cases "x = 0")
  case True
  then show ?thesis by simp
next
  case False
  then have "0 < exp \<bar>x\<bar> - 1" by simp
  then show ?thesis by (simp add: sgn_mult)
qed

lemma symexp_symlog_exact: "symexp Some (sgn x * ln (1 + \<bar>x\<bar>)) = Some x"
  unfolding symexp_exact sgn_symlog_exact by (simp add: abs_mult mult_sgn_abs)

lemma symlog_symexp_exact: "symlog Some (sgn x * (exp \<bar>x\<bar> - 1)) = Some x"
  unfolding symlog_exact sgn_symexp_exact by (simp add: abs_mult mult_sgn_abs)

text \<open>In single and in double precision the sum \<open>1 + 2^-70\<close> rounds to 1.\<close>

lemma round_to_single_one_plus_tiny: "round_to 24 (- 126) (1 + 1 / 2 ^ 70) = 1"
proof -
  let ?x = "1 + 1 / 2 ^ 70 :: real"
  have ax: "\<bar>?x\<bar> = ?x" by simp
  have fl: "\<lfloor>log 2 \<bar>?x\<bar>\<rfloor> = 0" unfolding ax by (rule floor_log2_eqI) simp_all
  have m: "max 0 (- 126) - (int 24 - 1) = - 23" by simp
  have pw: "(2::real) powr of_int (- 23) = 1 / 2 ^ 23" by (simp add: powr_minus_divide)
  have r: "round_half_even (?x / 2 powr of_int (- 23)) = 2 ^ 23"
    unfolding pw by (rule round_half_even_below_half) simp_all
  have "round_to 24 (- 126) ?x = of_int (2 ^ 23) * 2 powr of_int (- 23)"
    by (rule round_to_eval [OF _ fl m r]) simp
  then show ?thesis unfolding pw by simp
qed

lemma round_to_double_one_plus_tiny: "round_to 53 (- 1022) (1 + 1 / 2 ^ 70) = 1"
proof -
  let ?x = "1 + 1 / 2 ^ 70 :: real"
  have ax: "\<bar>?x\<bar> = ?x" by simp
  have fl: "\<lfloor>log 2 \<bar>?x\<bar>\<rfloor> = 0" unfolding ax by (rule floor_log2_eqI) simp_all
  have m: "max 0 (- 1022) - (int 53 - 1) = - 52" by simp
  have pw: "(2::real) powr of_int (- 52) = 1 / 2 ^ 52" by (simp add: powr_minus_divide)
  have r: "round_half_even (?x / 2 powr of_int (- 52)) = 2 ^ 52"
    unfolding pw by (rule round_half_even_below_half) simp_all
  have "round_to 53 (- 1022) ?x = of_int (2 ^ 52) * 2 powr of_int (- 52)"
    by (rule round_to_eval [OF _ fl m r]) simp
  then show ?thesis unfolding pw by simp
qed

lemma float_round_single_one_plus_tiny: "float_round 24 (- 126) 127 (1 + 1 / 2 ^ 70) = Some 1"
  unfolding float_round_def round_to_single_one_plus_tiny by (simp add: powr_realpow [symmetric])

lemma float_round_double_one_plus_tiny: "float_round 53 (- 1022) 1023 (1 + 1 / 2 ^ 70) = Some 1"
  unfolding float_round_def round_to_double_one_plus_tiny by (simp add: powr_realpow [symmetric])

text \<open>\<open>exp 100\<close> is beyond the single-precision range.\<close>

lemma exp_100_ge: "2 powr of_int (127 + 1) \<le> exp (100::real)"
proof -
  have "5 / 2 \<le> exp (1::real)" using exp_lower_Taylor_quadratic [of "1::real"] by simp
  then have "(5 / 2) ^ 100 \<le> exp (1::real) ^ 100" by (rule power_mono) simp
  also have "exp (1::real) ^ 100 = exp 100" using exp_of_nat_mult [of 100 "1::real"] by simp
  finally have "(5 / 2 :: real) ^ 100 \<le> exp 100" .
  moreover have "(2::real) ^ 128 \<le> (5 / 2) ^ 100"
  proof -
    have "(2::real) ^ 128 * 2 ^ 100 \<le> 5 ^ 100" by simp
    then show ?thesis by (simp add: power_divide pos_le_divide_eq)
  qed
  moreover have "2 powr of_int (127 + 1) = (2::real) ^ 128" by simp
  ultimately show ?thesis by linarith
qed

lemma symexp_single_overflow: "symexp (float_round 24 (- 126) 127) 100 = None"
proof -
  have ab: "\<bar>100::real\<bar> = 100" by simp
  have "float_round 24 (- 126) 127 (exp 100) = None"
    by (rule float_round_overflow [OF _ _ exp_100_ge]) simp_all
  then show ?thesis unfolding symexp_def ab by simp
qed

text \<open>
  C3 as stated: for every finite \<open>x\<close>, \<open>symexp (symlog x) = x\<close> and
  \<open>sign (symlog x) = sign x\<close>. The float \<open>x = -2^-70\<close> is finite and not zero, but
  \<open>1 + |x|\<close> rounds to 1 in single and in double precision, the logarithm of 1 is 0,
  and \<open>symlog x\<close> is 0: its sign is 0, not the sign of \<open>x\<close>, and \<open>symexp\<close> maps it to 0,
  not back to \<open>x\<close>. In the other direction \<open>symexp 100\<close> overflows in single precision.
\<close>

theorem symlog_rounds_to_zero_example:
  "symlog (float_round 24 (- 126) 127) (- (1 / 2 ^ 70)) = Some 0 \<and>
   symlog (float_round 53 (- 1022) 1023) (- (1 / 2 ^ 70)) = Some 0 \<and>
   sgn (0::real) \<noteq> sgn (- (1 / 2 ^ 70)) \<and>
   symexp (float_round 24 (- 126) 127) 0 = Some 0 \<and>
   symexp (float_round 53 (- 1022) 1023) 0 = Some 0 \<and>
   (0::real) \<noteq> - (1 / 2 ^ 70) \<and>
   symexp (float_round 24 (- 126) 127) 100 = None"
proof -
  have ab: "\<bar>- (1 / 2 ^ 70)\<bar> = (1 / 2 ^ 70 :: real)" by simp
  have a: "symlog (float_round 24 (- 126) 127) (- (1 / 2 ^ 70)) = Some 0"
    unfolding symlog_def ab float_round_single_one_plus_tiny by simp
  have a': "symlog (float_round 53 (- 1022) 1023) (- (1 / 2 ^ 70)) = Some 0"
    unfolding symlog_def ab float_round_double_one_plus_tiny by simp
  have b: "symexp (float_round 24 (- 126) 127) 0 = Some 0"
    by (simp add: symexp_def float_round_1)
  have b': "symexp (float_round 53 (- 1022) 1023) 0 = Some 0"
    by (simp add: symexp_def float_round_1)
  from a a' b b' symexp_single_overflow show ?thesis by simp
qed

text \<open>
  C3, amended. In exact arithmetic (nothing rounded) \<open>symlog\<close> and \<open>symexp\<close> are
  inverse to each other in both directions and \<open>symlog\<close> keeps the sign of its
  argument. In floating-point arithmetic of any precision and exponent range that
  holds the number 1, \<open>symlog 0 = 0\<close> and \<open>symlog\<close> never reverses a sign: every finite
  result is 0 or has the sign of \<open>x\<close>.
\<close>

theorem symlog_symexp_inverse:
  assumes "1 \<le> prec" and "emin \<le> 0" and "0 \<le> emax"
  shows "symlog (float_round prec emin emax) 0 = Some 0 \<and>
         (\<forall>y. symlog (float_round prec emin emax) x = Some y \<longrightarrow> y = 0 \<or> sgn y = sgn x) \<and>
         (\<exists>y. symlog Some x = Some y \<and> sgn y = sgn x \<and> symexp Some y = Some x) \<and>
         (\<exists>z. symexp Some x = Some z \<and> symlog Some z = Some x) \<and>
         symlog Some 0 = Some 0"
proof (intro conjI allI impI)
  show "symlog (float_round prec emin emax) 0 = Some 0"
    using assms by (rule symlog_rounded_zero)
next
  fix y assume "symlog (float_round prec emin emax) x = Some y"
  with assms(1,2) show "y = 0 \<or> sgn y = sgn x" by (rule symlog_rounded_sign)
next
  show "\<exists>y. symlog Some x = Some y \<and> sgn y = sgn x \<and> symexp Some y = Some x"
    using symlog_exact sgn_symlog_exact symexp_symlog_exact by blast
next
  show "\<exists>z. symexp Some x = Some z \<and> symlog Some z = Some x"
    using symexp_exact symlog_symexp_exact by blast
next
  show "symlog Some 0 = Some 0" by (simp add: symlog_exact)
qed

theorem symlog_symexp_inverse_witness:
  "symlog (float_round 24 (- 126) 127) 0 = Some 0 \<and>
   (\<exists>y. symlog Some 3 = Some y \<and> sgn y = sgn 3 \<and> symexp Some y = Some 3) \<and>
   (\<exists>z. symexp Some 3 = Some z \<and> symlog Some z = Some 3)"
  using symlog_symexp_inverse [of 24 "- 126" 127 3] by simp

subsection \<open>least_power_of_2\<close>

lemma log2_8: "log 2 8 = (3::real)"
proof -
  have "log 2 (2 powr 3) = (3::real)" by (rule log_powr_cancel) simp_all
  then show ?thesis by simp
qed

lemma log2_4: "log 2 4 = (2::real)"
proof -
  have "log 2 (2 powr 2) = (2::real)" by (rule log_powr_cancel) simp_all
  then show ?thesis by simp
qed

lemma ceiling_log2_5: "\<lceil>log 2 5 :: real\<rceil> = 3"
proof (rule ceiling_unique)
  have "log 2 4 < (log 2 5 :: real)" by (subst log_less_cancel_iff) simp_all
  then show "real_of_int 3 - 1 < log 2 5" by (simp add: log2_4)
  have "log 2 5 \<le> (log 2 8 :: real)" by (subst log_le_cancel_iff) simp_all
  then show "log 2 5 \<le> real_of_int 3" by (simp add: log2_8)
qed

text \<open>
  With a logarithm that does not round, \<open>least_power_of_2\<close> is what its name says: for
  a positive value it returns a power of two that is at least the value and no larger
  than any other such power, and the four values of the specification come out.
\<close>

lemma least_power_of_2_exact_log:
  assumes "0 < v"
  shows "\<exists>e::int. least_power_of_2 exact_log v = 2 powr real_of_int e
          \<and> v \<le> 2 powr real_of_int e
          \<and> (\<forall>j::int. v \<le> 2 powr real_of_int j
                \<longrightarrow> 2 powr real_of_int e \<le> 2 powr real_of_int j)"
proof -
  let ?e = "\<lceil>log 2 v\<rceil>"
  have 1: "least_power_of_2 exact_log v = 2 powr real_of_int ?e"
    using assms by (simp add: least_power_of_2_def exact_log_def)
  have "log 2 v \<le> real_of_int ?e" by simp
  then have 2: "v \<le> 2 powr real_of_int ?e"
    using assms by (simp add: le_powr_iff)
  have 3: "2 powr real_of_int ?e \<le> 2 powr real_of_int j"
    if "v \<le> 2 powr real_of_int j" for j :: int
  proof -
    from that assms have "log 2 v \<le> real_of_int j" by (simp add: le_powr_iff)
    then have "?e \<le> j" by (simp add: ceiling_le_iff)
    then show ?thesis by simp
  qed
  from 1 2 3 show ?thesis by blast
qed

lemma least_power_of_2_exact_log_examples:
  "least_power_of_2 exact_log 1 = 1 \<and> least_power_of_2 exact_log 5 = 8 \<and>
   least_power_of_2 exact_log 0 = 1 \<and> least_power_of_2 exact_log 8 = 8"
  by (simp add: least_power_of_2_def exact_log_def log2_8 ceiling_log2_5 powr_realpow)

lemma least_power_of_2_nonpositive: "v \<le> 0 \<Longrightarrow> least_power_of_2 math_log v = 1"
  by (simp add: least_power_of_2_def)

text \<open>
  C9. The claim is that \<open>least_power_of_2\<close> returns the smallest power of two that is
  at least the value, for every positive value. Python computes \<open>math.log(2**29, 2)\<close>
  in double precision as 29.000000000000004, which is \<open>29 + 2^-48\<close>. With that value
  the ceiling is 30 and the function returns \<open>2^30\<close> for the input \<open>2^29\<close>, although
  \<open>2^29\<close> itself is a power of two that is at least the input and smaller than the
  result.
\<close>

theorem least_power_of_2_rounded_log:
  "math_log (2 ^ 29) 2 = 29 + 1 / 2 ^ 48 \<Longrightarrow>
   least_power_of_2 math_log (2 ^ 29) = 2 ^ 30 \<and>
   (\<exists>j::int. (2::real) ^ 29 \<le> 2 powr real_of_int j \<and>
      2 powr real_of_int j < least_power_of_2 math_log (2 ^ 29))"
proof -
  assume a: "math_log (2 ^ 29) 2 = 29 + 1 / 2 ^ 48"
  have c: "\<lceil>29 + 1 / 2 ^ 48 :: real\<rceil> = 30" by (simp add: ceiling_eq_iff)
  have "least_power_of_2 math_log (2 ^ 29) = 2 powr real_of_int 30"
    unfolding least_power_of_2_def Let_def a c by simp
  also have "\<dots> = 2 ^ 30" by (simp add: powr_realpow)
  finally have r: "least_power_of_2 math_log (2 ^ 29) = 2 ^ 30" .
  have "(2::real) ^ 29 \<le> 2 powr real_of_int 29 \<and> 2 powr real_of_int 29 < (2::real) ^ 30"
    by (simp add: powr_realpow)
  with r show ?thesis by metis
qed

theorem least_power_of_2_rounded_log_witness:
  "least_power_of_2 (\<lambda>v b. if v = 2 ^ 29 then 29 + 1 / 2 ^ 48 else log b v) (2 ^ 29) = 2 ^ 30"
  using least_power_of_2_rounded_log
    [of "\<lambda>v b. if v = 2 ^ 29 then 29 + 1 / 2 ^ 48 else log b v"]
  by simp

subsection \<open>Exponential bins and logits_to_value\<close>

lemma length_linspace [simp]: "length (linspace a b n) = n"
  by (simp add: linspace_def)

lemma linspace_nth:
  "i < n \<Longrightarrow> linspace a b n ! i = a + real i * ((b - a) / real (n - 1))"
  by (auto simp: linspace_def)

lemma linspace_first: "0 < n \<Longrightarrow> linspace a b n ! 0 = a"
  by (simp add: linspace_nth)

lemma linspace_last: "2 \<le> n \<Longrightarrow> linspace a b n ! (n - 1) = b"
  by (simp add: linspace_nth)

lemma linspace_mono:
  assumes "a \<le> b" "i \<le> j" "j < n"
  shows "linspace a b n ! i \<le> linspace a b n ! j"
proof -
  have "0 \<le> (b - a) / real (n - 1)" using assms(1) by simp
  moreover have "real i \<le> real j" using assms(2) by simp
  ultimately have "real i * ((b - a) / real (n - 1)) \<le> real j * ((b - a) / real (n - 1))"
    by (rule mult_right_mono [rotated])
  then show ?thesis using assms by (simp add: linspace_nth)
qed

lemma linspace_strict_mono:
  assumes "a < b" "i < j" "j < n"
  shows "linspace a b n ! i < linspace a b n ! j"
proof -
  from assms have "2 \<le> n" by simp
  then have "0 < real (n - 1)" by simp
  then have "0 < (b - a) / real (n - 1)" using assms(1) by simp
  moreover have "real i < real j" using assms(2) by simp
  ultimately have "real i * ((b - a) / real (n - 1)) < real j * ((b - a) / real (n - 1))"
    by (rule mult_strict_right_mono [rotated])
  then show ?thesis using assms by (simp add: linspace_nth)
qed

lemma sorted_linspace: "a \<le> b \<Longrightarrow> sorted (linspace a b n)"
  by (simp add: sorted_iff_nth_mono linspace_mono)

lemma length_exp_bins [simp]: "length (exp_bins n a b) = n"
  by (simp add: exp_bins_def)

lemma exp_bins_nth: "i < n \<Longrightarrow> exp_bins n a b ! i = 2 powr (linspace a b n ! i)"
  by (simp add: exp_bins_def)

lemma sum_exp_pos: "z \<noteq> [] \<Longrightarrow> 0 < sum_list (map exp (z :: real list))"
proof -
  assume "z \<noteq> []"
  then obtain a z' where z: "z = a # z'" by (cases z) auto
  have "0 \<le> sum_list (map exp z')" by (rule sum_list_nonneg) auto
  moreover have "0 < exp a" by simp
  ultimately show ?thesis unfolding z by (simp add: add_pos_nonneg)
qed

lemma length_softmax [simp]: "length (softmax z) = length z"
  by (simp add: softmax_def)

lemma softmax_nth: "i < length z \<Longrightarrow> softmax z ! i = exp (z ! i) / sum_list (map exp z)"
  by (simp add: softmax_def)

lemma softmax_pos: "i < length z \<Longrightarrow> 0 < softmax z ! i"
proof -
  assume i: "i < length z"
  then have "z \<noteq> []" by auto
  then have "0 < sum_list (map exp z)" by (rule sum_exp_pos)
  then show ?thesis using i by (simp add: softmax_nth)
qed

lemma sum_list_softmax: "z \<noteq> [] \<Longrightarrow> sum_list (softmax z) = 1"
proof -
  assume ne: "z \<noteq> []"
  then have p: "sum_list (map exp z) \<noteq> 0" using sum_exp_pos [OF ne] by simp
  have "sum_list (softmax z) = sum_list (map (\<lambda>a. exp a * inverse (sum_list (map exp z))) z)"
    by (simp add: softmax_def divide_inverse)
  also have "\<dots> = sum_list (map exp z) * inverse (sum_list (map exp z))"
    by (simp add: sum_list_mult_const)
  also have "\<dots> = 1" using p by simp
  finally show ?thesis .
qed

lemma logits_to_value_row:
  assumes "length row = num_bins"
  shows "logits_to_value (Logits2 [row]) num_bins min_exp max_exp =
           Inr [\<Sum>i<num_bins. softmax row ! i * 2 powr (linspace min_exp max_exp num_bins ! i)]"
proof -
  have "broadcast2 (*) (softmax row) (exp_bins num_bins min_exp max_exp)
      = Inr (map (\<lambda>i. softmax row ! i * exp_bins num_bins min_exp max_exp ! i) [0..<num_bins])"
    using assms by (simp add: broadcast2_same map2_nth_eq [where n = num_bins])
  also have "map (\<lambda>i. softmax row ! i * exp_bins num_bins min_exp max_exp ! i) [0..<num_bins]
      = map (\<lambda>i. softmax row ! i * 2 powr (linspace min_exp max_exp num_bins ! i)) [0..<num_bins]"
    by (simp add: exp_bins_nth)
  finally show ?thesis
    by (simp add: logits_to_value_def ensure_2d_def sum_list_map_upt)
qed

lemma ensure_2d_Logits1: "logits_to_value (Logits1 row) n a b = logits_to_value (Logits2 [row]) n a b"
  by (simp add: logits_to_value_def ensure_2d_def)

text \<open>
  C6. For a logits vector of length \<open>num_bins\<close> (at least two bins, \<open>min_exp \<le> max_exp\<close>)
  \<open>logits_to_value\<close> returns the one-element tensor holding the sum over the bins of
  \<open>softmax(logits)[i] * bins[i]\<close>; the softmax weights are positive and add up to 1, so
  this is an expected value; \<open>bins[i] = 2^exponents[i]\<close>, and the exponents are
  \<open>num_bins\<close> values with a constant step from \<open>min_exp\<close> (first) to \<open>max_exp\<close> (last),
  in ascending order.
\<close>

theorem logits_to_value_expectation:
  assumes "length row = num_bins" and "2 \<le> num_bins" and "min_exp \<le> max_exp"
  shows "logits_to_value (Logits1 row) num_bins min_exp max_exp =
           Inr [\<Sum>i<num_bins. softmax row ! i * exp_bins num_bins min_exp max_exp ! i] \<and>
         sum_list (softmax row) = 1 \<and> (\<forall>i<num_bins. 0 < softmax row ! i) \<and>
         length (exp_bins num_bins min_exp max_exp) = num_bins \<and>
         (\<forall>i<num_bins. exp_bins num_bins min_exp max_exp ! i
                           = 2 powr (linspace min_exp max_exp num_bins ! i)) \<and>
         length (linspace min_exp max_exp num_bins) = num_bins \<and>
         (\<forall>i<num_bins. linspace min_exp max_exp num_bins ! i
                           = min_exp + real i * ((max_exp - min_exp) / real (num_bins - 1))) \<and>
         linspace min_exp max_exp num_bins ! 0 = min_exp \<and>
         linspace min_exp max_exp num_bins ! (num_bins - 1) = max_exp \<and>
         sorted (linspace min_exp max_exp num_bins)"
proof -
  have v: "logits_to_value (Logits1 row) num_bins min_exp max_exp =
           Inr [\<Sum>i<num_bins. softmax row ! i * exp_bins num_bins min_exp max_exp ! i]"
    using logits_to_value_row [OF assms(1)] by (simp add: ensure_2d_Logits1 exp_bins_nth)
  from assms have ne: "row \<noteq> []" by auto
  have s: "sum_list (softmax row) = 1" using ne by (rule sum_list_softmax)
  have sp: "\<forall>i<num_bins. 0 < softmax row ! i" using assms(1) softmax_pos by blast
  have f: "linspace min_exp max_exp num_bins ! 0 = min_exp"
    using assms(2) by (simp add: linspace_first)
  have l: "linspace min_exp max_exp num_bins ! (num_bins - 1) = max_exp"
    using assms(2) by (rule linspace_last)
  have so: "sorted (linspace min_exp max_exp num_bins)" using assms(3) by (rule sorted_linspace)
  from v s sp f l so show ?thesis by (simp add: exp_bins_nth linspace_nth)
qed

theorem logits_to_value_expectation_witness:
  "logits_to_value (Logits1 [0, 0]) 2 1 2 = Inr [3]"
proof -
  have sm: "softmax [0, 0] = [1 / 2, 1 / 2]" by (simp add: softmax_def)
  have eb: "exp_bins 2 1 2 = [2, 4]"
    by (simp add: exp_bins_def linspace_def upt_rec numeral_eq_Suc)
  have "logits_to_value (Logits1 [0, 0]) 2 1 2
     = Inr [\<Sum>i<2. softmax [0, 0] ! i * exp_bins 2 1 2 ! i]"
    using logits_to_value_expectation [of "[0, 0]" 2 1 2] by simp
  also have "(\<Sum>i<2. softmax [0, 0] ! i * exp_bins 2 1 2 ! i) = 3"
    unfolding sm eb by (simp add: lessThan_Suc numeral_2_eq_2)
  finally show ?thesis .
qed

subsection \<open>The two-hot encoding of twohot_exp_loss\<close>

lemma index_get_in_range:
  "0 \<le> i \<Longrightarrow> i < int (length xs) \<Longrightarrow> index_get xs i = Inr (xs ! nat i)"
  by (simp add: index_get_def Let_def)

lemma twohot_k_range:
  assumes "2 \<le> n"
  shows "0 \<le> twohot_k log2_of v n a b \<and> twohot_k log2_of v n a b \<le> int n - 2"
  using assms by (simp add: twohot_k_def clamp_def)

lemma twohot_k_card:
  assumes "2 \<le> n"
  shows "nat (twohot_k log2_of v n a b)
           = min (card {i. i < n \<and> linspace a b n ! i < log2_of v}) (n - 2)"
proof -
  have "length (filter (\<lambda>e. e < log2_of v) (linspace a b n))
          = card {i. i < n \<and> linspace a b n ! i < log2_of v}"
    by (simp add: length_filter_conv_card)
  moreover have "nat (int n - 2) = n - 2" using assms by arith
  moreover have "int c \<le> int n - 2 \<longleftrightarrow> c \<le> n - 2" for c using assms by arith
  ultimately show ?thesis by (simp add: twohot_k_def clamp_def min_def)
qed

text \<open>The target tensor for one row and one value, with at least two bins.\<close>

lemma twohot_single:
  assumes n: "2 \<le> n" and len: "length row = n" and k: "k = nat (twohot_k log2_of v n a b)"
    and bins: "bins = exp_bins n a b"
  shows "twohot log2_of [row] [v] n a b =
           Inr [(replicate n 0)[k := weight_lower v (bins ! k) (bins ! (k + 1)),
                                k + 1 := weight_upper v (bins ! k) (bins ! (k + 1))]]"
proof -
  let ?ki = "twohot_k log2_of v n a b"
  from twohot_k_range [OF n] have r: "0 \<le> ?ki" "?ki \<le> int n - 2" by simp_all
  have ik: "?ki = int k" using r k by simp
  have k1: "k + 1 < n" using r k n by linarith
  have g0: "index_get bins (int k) = Inr (bins ! k)"
    using k1 by (simp add: index_get_in_range bins)
  have g1: "index_get bins (int k + 1) = Inr (bins ! (k + 1))"
  proof -
    have "index_get bins (int k + 1) = Inr (bins ! nat (int k + 1))"
      using k1 by (intro index_get_in_range) (simp_all add: bins)
    moreover have "nat (int k + 1) = k + 1" by simp
    ultimately show ?thesis by simp
  qed
  have u: "twohot log2_of [row] [v] n a b =
      then_do (map_err (index_get bins) [int k])
           (\<lambda>lower_bin.
              then_do (map_err (\<lambda>i. index_get bins (i + 1)) [int k])
                (\<lambda>upper_bin.
                   then_do (scatter_1 (zeros_like [row]) [int k]
                       (map (\<lambda>(v, lo, up). weight_lower v lo up)
                                   (zip [v] (zip lower_bin upper_bin))))
                        (\<lambda>t. scatter_1 t (map (\<lambda>i. i + 1) [int k])
                           (map (\<lambda>(v, lo, up). weight_upper v lo up)
                                   (zip [v] (zip lower_bin upper_bin))))))"
    by (simp add: twohot_def Let_def bins ik)
  have nk: "nat (int k + 1) = Suc k" by simp
  have ik1: "int k + 1 < int n" using k1 by simp
  have kn: "k < n" using k1 by simp
  show ?thesis
    unfolding u by (simp add: g0 g1 zeros_like_def len nk ik1 kn)
qed

lemma twohot_exp_loss_single:
  assumes "length row = n" and "twohot log2_of [row] [v] n a b = Inr [target]"
  shows "twohot_exp_loss log2_of (Logits1 row) [v] n a b =
           Inr (cross_entropy [row] [target],
                [(\<Sum>i<n. softmax row ! i * exp_bins n a b ! i)])"
  using assms logits_to_value_row [OF assms(1), of a b]
  by (simp add: twohot_exp_loss_def ensure_2d_def Let_def exp_bins_nth)

lemma exp_bins_distinct:
  assumes "a \<noteq> b" "k + 1 < n"
  shows "exp_bins n a b ! (k + 1) \<noteq> exp_bins n a b ! k"
proof -
  from assms have "0 < real (n - 1)" by simp
  then have "(b - a) / real (n - 1) \<noteq> 0" using assms(1) by simp
  then have "linspace a b n ! (k + 1) \<noteq> linspace a b n ! k"
    using assms(2) by (simp add: linspace_nth algebra_simps)
  then show ?thesis using assms(2) by (simp add: exp_bins_nth powr_inj)
qed

lemma exp_bins_3: "exp_bins 3 0 2 = [1, 2, 4]"
  by (simp add: exp_bins_def linspace_def upt_rec numeral_eq_Suc)

lemma linspace_3: "linspace 0 2 3 = [0, 1, 2]"
  by (simp add: linspace_def upt_rec numeral_eq_Suc)

lemma update_3:
  "(replicate 3 (0::real))[0 := x] = [x, 0, 0]"
  "(replicate 3 (0::real))[1 := x, 1 + 1 := y] = [0, x, y]"
  by (simp_all add: numeral_eq_Suc)

lemma log2_3_bounds: "1 < log 2 3 \<and> log 2 3 < (2::real)"
proof -
  have "log 2 2 < (log 2 3 :: real)" by (subst log_less_cancel_iff) simp_all
  moreover have "log 2 3 < (log 2 4 :: real)" by (subst log_less_cancel_iff) simp_all
  ultimately show ?thesis by (simp add: log2_4)
qed

lemma count_3: "card {i. i < 3 \<and> linspace 0 2 3 ! i < log 2 3} = 2"
proof -
  have "{i. i < 3 \<and> linspace 0 2 3 ! i < log 2 3} = {0, 1}"
  proof (rule set_eqI)
    fix i :: nat
    have "i < 3 \<Longrightarrow> linspace 0 2 3 ! i = real i" by (simp add: linspace_nth)
    moreover have "i < 3 \<longleftrightarrow> i = 0 \<or> i = 1 \<or> i = 2" by auto
    ultimately show "i \<in> {i. i < 3 \<and> linspace 0 2 3 ! i < log 2 3} \<longleftrightarrow> i \<in> {0, 1}"
      using log2_3_bounds by auto
  qed
  then show ?thesis by simp
qed




subsection \<open>A target value on a bin\<close>

lemma count_below_exponent:
  assumes "a < b" "i < n"
  shows "length (filter (\<lambda>e. e < linspace a b n ! i) (linspace a b n)) = i"
proof -
  have "{j. j < n \<and> linspace a b n ! j < linspace a b n ! i} = {..<i}"
  proof (rule set_eqI)
    fix j
    show "j \<in> {j. j < n \<and> linspace a b n ! j < linspace a b n ! i} \<longleftrightarrow> j \<in> {..<i}"
    proof
      assume "j \<in> {j. j < n \<and> linspace a b n ! j < linspace a b n ! i}"
      then have jn: "j < n" and lt: "linspace a b n ! j < linspace a b n ! i" by simp_all
      have "j < i"
      proof (rule ccontr)
        assume "\<not> j < i"
        then have "i \<le> j" by simp
        then have "linspace a b n ! i \<le> linspace a b n ! j"
          using assms(1) jn by (intro linspace_mono) simp_all
        with lt show False by simp
      qed
      then show "j \<in> {..<i}" by simp
    next
      assume "j \<in> {..<i}"
      then have ji: "j < i" by simp
      then have "linspace a b n ! j < linspace a b n ! i"
        using assms by (intro linspace_strict_mono)
      with ji assms(2) show "j \<in> {j. j < n \<and> linspace a b n ! j < linspace a b n ! i}" by simp
    qed
  qed
  then have s: "{j. j < n \<and> linspace a b n ! j < linspace a b n ! i} = {..<i}" .
  have "length (filter (\<lambda>e. e < linspace a b n ! i) (linspace a b n))
          = card {j. j < length (linspace a b n) \<and> linspace a b n ! j < linspace a b n ! i}"
    by (rule length_filter_conv_card)
  also have "\<dots> = card {j. j < n \<and> linspace a b n ! j < linspace a b n ! i}"
    by (simp only: length_linspace)
  also have "\<dots> = card {..<i}" by (simp only: s)
  also have "\<dots> = i" by (rule card_lessThan)
  finally show ?thesis .
qed

lemma twohot_k_at_bin:
  assumes "a < b" "i < n" "2 \<le> n" and lg: "log2_of v = linspace a b n ! i"
  shows "twohot_k log2_of v n a b = int (min i (n - 2))"
proof -
  have h: "clamp (int i) 0 (int n - 2) = int (min i (n - 2))"
    unfolding clamp_def using assms(3) by arith
  show ?thesis
    unfolding twohot_k_def lg count_below_exponent [OF assms(1,2)] by (rule h)
qed

text \<open>The logarithm without rounding returns the exponent of a bin.\<close>

lemma log_exp_bins: "i < n \<Longrightarrow> log 2 (exp_bins n a b ! i) = linspace a b n ! i"
proof -
  assume "i < n"
  then have e: "exp_bins n a b ! i = 2 powr (linspace a b n ! i)" by (rule exp_bins_nth)
  show ?thesis unfolding e by (rule log_powr_cancel) simp_all
qed




end
